theory Spec2Isabelle
  imports Main
begin

section \<open>Cells, strings and frames\<close>

text \<open>
  The two scripts \<^verbatim>\<open>Actual_Revenue.py\<close> and \<^verbatim>\<open>Estimate_Revenue.py\<close> transform a
  spreadsheet read by \<^verbatim>\<open>pd.read_excel\<close>. A cell of that table is a number, a string or
  a missing value (\<^verbatim>\<open>NaN\<close>, \<^verbatim>\<open>None\<close>, \<^verbatim>\<open>pd.NA\<close>). The numeric type is left open:
  the scripts never compute with the numbers, they only print them (\<^verbatim>\<open>astype(str)\<close>)
  and parse them (\<^verbatim>\<open>pd.to_numeric\<close>), and both library functions are parameters of
  the model. Strings are lists of 8-bit characters read as code points below 256.
\<close>

datatype 'n cell = Num 'n | Str string | NA

text \<open>Python's \<^verbatim>\<open>str.isspace\<close> on the code points below 256.\<close>

definition is_space :: "char \<Rightarrow> bool" where
  "is_space c \<longleftrightarrow> c \<in> set [CHR 0x09, CHR 0x0A, CHR 0x0B, CHR 0x0C, CHR 0x0D,
     CHR 0x1C, CHR 0x1D, CHR 0x1E, CHR 0x1F, CHR 0x20, CHR 0x85, CHR 0xA0]"

text \<open>\<^verbatim>\<open>\d\<close> on the code points below 256.\<close>

definition is_digit :: "char \<Rightarrow> bool" where
  "is_digit c \<longleftrightarrow> c \<in> set ''0123456789''"

text \<open>\<^verbatim>\<open>x.strip()\<close>\<close>

definition strip :: "string \<Rightarrow> string" where
  "strip s = rev (dropWhile is_space (rev (dropWhile is_space s)))"

text \<open>
  \<^verbatim>\<open>s.split()\<close> without arguments: the maximal runs of non-space characters. The
  second argument is the word being read.
\<close>

fun split_acc :: "string \<Rightarrow> string \<Rightarrow> string list" where
  "split_acc [] w = (if w = [] then [] else [w])"
| "split_acc (c # cs) w =
     (if is_space c then (if w = [] then split_acc cs [] else w # split_acc cs [])
      else split_acc cs (w @ [c]))"

definition split_ws :: "string \<Rightarrow> string list" where
  "split_ws s = split_acc s []"

subsection \<open>The revenue-code pattern\<close>

text \<open>
  \<^verbatim>\<open>re.compile(r"^\d{4}\.\d{2}\.\d{2}$")\<close> used through \<^verbatim>\<open>str.match\<close>, that is
  \<^verbatim>\<open>re.match\<close>: the atoms are matched from the start of the string, and \<^verbatim>\<open>$\<close>
  accepts the end of the string or the position before one final newline.
\<close>

datatype atom = Digit | Dot

fun atom_ok :: "atom \<Rightarrow> char \<Rightarrow> bool" where
  "atom_ok Digit c = is_digit c"
| "atom_ok Dot c = (c = CHR ''.'')"

fun match_atoms :: "atom list \<Rightarrow> string \<Rightarrow> string option" where
  "match_atoms [] s = Some s"
| "match_atoms (a # as) [] = None"
| "match_atoms (a # as) (c # cs) = (if atom_ok a c then match_atoms as cs else None)"

definition at_end :: "string \<Rightarrow> bool" where
  "at_end s \<longleftrightarrow> s = [] \<or> s = [CHR 0x0A]"

definition pattern :: "atom list" where
  "pattern = [Digit, Digit, Digit, Digit, Dot, Digit, Digit, Dot, Digit, Digit]"

definition str_match :: "string \<Rightarrow> bool" where
  "str_match s = (case match_atoms pattern s of None \<Rightarrow> False | Some r \<Rightarrow> at_end r)"

text \<open>
  \<^verbatim>\<open>astype(str)\<close>: a string is itself, a missing value prints as \<^verbatim>\<open>nan\<close>, a number
  prints through the library's conversion \<open>show_num\<close>.
\<close>

fun astype_str :: "('n \<Rightarrow> string) \<Rightarrow> 'n cell \<Rightarrow> string" where
  "astype_str show_num (Num n) = show_num n"
| "astype_str show_num (Str s) = s"
| "astype_str show_num NA = ''nan''"

definition is_code :: "('n \<Rightarrow> string) \<Rightarrow> 'n cell \<Rightarrow> bool" where
  "is_code show_num c = str_match (astype_str show_num c)"

subsection \<open>Frames\<close>

text \<open>
  The frame after \<^verbatim>\<open>read_excel\<close>: the first column (revenue code), the second
  (revenue source) and the remaining columns, whose headers are the month labels. A row
  keeps its month cells in column order; a cell the sheet does not have reads as missing.

  pandas keeps one dtype for every column, and a number is stored as the dtype of its
  column holds it. The scripts build the \<^verbatim>\<open>Value\<close> column twice: \<^verbatim>\<open>melt\<close> stacks
  the month columns into one column of their common dtype, and \<^verbatim>\<open>reindex\<close> and
  \<^verbatim>\<open>pd.to_numeric\<close> give the column its final dtype. Which dtypes these are depends
  on the dtypes of the columns as they were read, which the cells alone do not tell, so the
  frame carries the two conversions: \<open>melt_dtype df n\<close> is the number \<open>n\<close> as the
  stacked column stores it and \<open>value_dtype df n\<close> as the final column does (\<open>n\<close>
  itself in an \<^verbatim>\<open>int64\<close> or \<^verbatim>\<open>object\<close> column, its nearest \<^verbatim>\<open>float64\<close> in a
  \<^verbatim>\<open>float64\<close> column, which a column with a missing entry is).
\<close>

record 'n wide_row =
  code :: "'n cell"
  source :: "'n cell"
  vals :: "'n cell list"

record 'n frame =
  month_cols :: "string list"
  rows :: "'n wide_row list"
  melt_dtype :: "'n \<Rightarrow> 'n"
  value_dtype :: "'n \<Rightarrow> 'n"

text \<open>A cell as a column with the given conversion stores it.\<close>

fun store :: "('n \<Rightarrow> 'n) \<Rightarrow> 'n cell \<Rightarrow> 'n cell" where
  "store conv (Num n) = Num (conv n)"
| "store conv c = c"

definition cell_at :: "'n wide_row \<Rightarrow> nat \<Rightarrow> 'n cell" where
  "cell_at r j = (if j < length (vals r) then vals r ! j else NA)"

text \<open>\<^verbatim>\<open>df.columns = df.columns.str.strip()\<close>\<close>

definition strip_columns :: "'n frame \<Rightarrow> 'n frame" where
  "strip_columns df = df\<lparr>month_cols := map strip (month_cols df)\<rparr>"

section \<open>Cleaning\<close>

text \<open>\<^verbatim>\<open>df = df.replace("-", pd.NA)\<close>: a cell equal to the string \<^verbatim>\<open>"-"\<close> becomes missing.\<close>

definition replace_dash :: "'n cell \<Rightarrow> 'n cell" where
  "replace_dash c = (if c = Str ''-'' then NA else c)"

text \<open>\<^verbatim>\<open>lambda x: x.strip() if isinstance(x, str) else x\<close>\<close>

fun strip_cell :: "'n cell \<Rightarrow> 'n cell" where
  "strip_cell (Str s) = Str (strip s)"
| "strip_cell c = c"

definition map_row :: "('n cell \<Rightarrow> 'n cell) \<Rightarrow> 'n wide_row \<Rightarrow> 'n wide_row" where
  "map_row f r = \<lparr>code = f (code r), source = f (source r), vals = map f (vals r)\<rparr>"

definition map_frame :: "('n cell \<Rightarrow> 'n cell) \<Rightarrow> 'n frame \<Rightarrow> 'n frame" where
  "map_frame f df = df\<lparr>rows := map (map_row f) (rows df)\<rparr>"

text \<open>\<^verbatim>\<open>df.iloc[:, 1] = df.iloc[:, 1].fillna(df.iloc[:, 0])\<close>\<close>

definition fill_row :: "'n wide_row \<Rightarrow> 'n wide_row" where
  "fill_row r = r\<lparr>source := (if source r = NA then code r else source r)\<rparr>"

definition fillna_source :: "'n frame \<Rightarrow> 'n frame" where
  "fillna_source df = df\<lparr>rows := map fill_row (rows df)\<rparr>"

text \<open>Step 4 of \<^verbatim>\<open>Actual_Revenue.py\<close>, step 5 of \<^verbatim>\<open>Estimate_Revenue.py\<close>.\<close>

definition clean_values :: "'n frame \<Rightarrow> 'n frame" where
  "clean_values df = fillna_source (map_frame strip_cell (map_frame replace_dash df))"

section \<open>Row validation\<close>

text \<open>
  The exceptions the scripts can meet: \<^verbatim>\<open>valid_rows.index[-1]\<close> on an empty index
  (\<^verbatim>\<open>IndexError\<close>), the two \<^verbatim>\<open>raise ValueError\<close> of the year extraction, the
  \<^verbatim>\<open>ValueError\<close> of \<^verbatim>\<open>reindex\<close> on an index with duplicate entries, the
  \<^verbatim>\<open>ValueError\<close> for an empty folder, and whatever the reader or the database raises.
\<close>

datatype error = IndexError | YearNotFound | NonUniqueIndex | NoExcelFiles | External string

text \<open>
  \<^verbatim>\<open>valid_rows = df[df.iloc[:, 0].astype(str).str.match(pattern, na=False)]\<close>: the
  positions of the rows whose first cell is a revenue code.
\<close>

definition valid_index :: "('n \<Rightarrow> string) \<Rightarrow> 'n frame \<Rightarrow> nat list" where
  "valid_index show_num df =
     filter (\<lambda>i. is_code show_num (code (rows df ! i))) [0..<length (rows df)]"

text \<open>
  \<^verbatim>\<open>last_index = valid_rows.index[-1]; df = df.loc[:last_index].copy()\<close>: the slice by
  label includes the last valid row and everything before it.
\<close>

definition slice_to_last :: "('n \<Rightarrow> string) \<Rightarrow> 'n frame \<Rightarrow> error + 'n frame" where
  "slice_to_last show_num df =
     (case rev (valid_index show_num df) of
        [] \<Rightarrow> Inl IndexError
      | last_index # _ \<Rightarrow> Inr (df\<lparr>rows := take (Suc last_index) (rows df)\<rparr>))"

text \<open>\<^verbatim>\<open>df = df[df[revenue_code_col].astype(str).str.match(pattern, na=False)]\<close>\<close>

definition filter_valid :: "('n \<Rightarrow> string) \<Rightarrow> 'n frame \<Rightarrow> 'n frame" where
  "filter_valid show_num df = df\<lparr>rows := filter (\<lambda>r. is_code show_num (code r)) (rows df)\<rparr>"

section \<open>Melting\<close>

text \<open>
  \<^verbatim>\<open>df.melt(id_vars=fixed_cols, value_vars=month_cols, var_name="Month",
  value_name="Value")\<close>: one block of rows per month column, in column order, the
  values stored in the common dtype of the month columns.
\<close>

record 'n melted_row =
  id_code :: "'n cell"
  id_source :: "'n cell"
  var_month :: string
  m_value :: "'n cell"

definition melt_col ::
  "('n \<Rightarrow> 'n) \<Rightarrow> 'n wide_row list \<Rightarrow> nat \<times> string \<Rightarrow> 'n melted_row list" where
  "melt_col conv rs jm =
     map (\<lambda>r. \<lparr>id_code = code r, id_source = source r, var_month = snd jm,
               m_value = store conv (cell_at r (fst jm))\<rparr>) rs"

definition melt :: "'n frame \<Rightarrow> 'n melted_row list" where
  "melt df = concat (map (melt_col (melt_dtype df) (rows df)) (enumerate 0 (month_cols df)))"

section \<open>Year extraction\<close>

text \<open>\<^verbatim>\<open>re.search(r"(\d{4})", file_name)\<close>: the leftmost four consecutive digits.\<close>

fun search_year :: "string \<Rightarrow> string option" where
  "search_year [] = None"
| "search_year (c # cs) =
     (case match_atoms [Digit, Digit, Digit, Digit] (c # cs) of
        Some _ \<Rightarrow> Some (take 4 (c # cs))
      | None \<Rightarrow> search_year cs)"

definition digit_val :: "char \<Rightarrow> nat" where
  "digit_val c = of_char c - 48"

text \<open>\<^verbatim>\<open>int(match.group(1))\<close>\<close>

definition int_of_digits :: "string \<Rightarrow> int" where
  "int_of_digits s = int (foldl (\<lambda>a c. 10 * a + digit_val c) 0 s)"

definition extract_year :: "string \<Rightarrow> error + int" where
  "extract_year file_name =
     (case search_year file_name of
        None \<Rightarrow> Inl YearNotFound
      | Some g \<Rightarrow> Inr (int_of_digits g))"

text \<open>\<^verbatim>\<open>str\<close> of an integer, as \<^verbatim>\<open>df_melted["Year"].astype(str)\<close> prints it.\<close>

definition digit_char :: "nat \<Rightarrow> char" where
  "digit_char k = ''0123456789'' ! k"

fun show_nat :: "nat \<Rightarrow> string" where
  "show_nat n =
     (if n < 10 then [digit_char n]
      else show_nat (n div 10) @ [digit_char (n mod 10)])"

declare show_nat.simps [simp del]

definition str_int :: "int \<Rightarrow> string" where
  "str_int i = (if i < 0 then CHR ''-'' # show_nat (nat (- i)) else show_nat (nat i))"

section \<open>Calendar completion\<close>

text \<open>
  \<^verbatim>\<open>df_final\<close> of \<^verbatim>\<open>Actual_Revenue.py\<close> before completion, with the columns
  \<^verbatim>\<open>Date\<close>, \<^verbatim>\<open>Revenue Code\<close>, \<^verbatim>\<open>Revenue Source\<close> and \<^verbatim>\<open>Value\<close>.
\<close>

record 'n dated_row =
  d_date :: string
  d_code :: "'n cell"
  d_source :: "'n cell"
  d_value :: "'n cell"

text \<open>\<^verbatim>\<open>df_melted["Date"] = df_melted["Year"].astype(str) + " " + df_melted["Month"].astype(str)\<close>\<close>

definition with_date :: "int \<Rightarrow> 'n melted_row \<Rightarrow> 'n dated_row" where
  "with_date y r =
     \<lparr>d_date = str_int y @ '' '' @ var_month r, d_code = id_code r,
      d_source = id_source r, d_value = m_value r\<rparr>"

text \<open>
  \<^verbatim>\<open>df_final["Date"].str.split().str[1]\<close>: the second word of the date, missing when
  the date has fewer than two words.
\<close>

definition month_of_date :: "string \<Rightarrow> string option" where
  "month_of_date d = (case split_ws d of a # b # _ \<Rightarrow> Some b | _ \<Rightarrow> None)"

text \<open>
  The month that the index holds for a column label: its first word, by
  \<open>month_of_date\<close> applied to the date built from the label.
\<close>

definition first_word :: "string \<Rightarrow> string option" where
  "first_word m = (case split_ws m of [] \<Rightarrow> None | w # _ \<Rightarrow> Some w)"

definition month_order :: "string list" where
  "month_order = [''January'', ''February'', ''March'', ''April'', ''May'', ''June'',
     ''July'', ''August'', ''September'', ''October'', ''November'', ''December'']"

text \<open>\<^verbatim>\<open>Series.unique()\<close>: the distinct values in order of first appearance.\<close>

definition unique :: "'a list \<Rightarrow> 'a list" where
  "unique xs = rev (remdups (rev xs))"

text \<open>\<^verbatim>\<open>pd.MultiIndex.from_product([unique_codes, month_order])\<close>\<close>

definition reindex_template :: "'n cell list \<Rightarrow> ('n cell \<times> string) list" where
  "reindex_template unique_codes = List.product unique_codes month_order"

text \<open>\<^verbatim>\<open>set_index(["Revenue Code", "Month"])\<close>: the index entry of a row.\<close>

definition index_key :: "'n dated_row \<Rightarrow> 'n cell \<times> string option" where
  "index_key r = (d_code r, month_of_date (d_date r))"

text \<open>
  \<^verbatim>\<open>.reindex(reindex_template).reset_index()\<close>. pandas refuses to reindex a MultiIndex
  with duplicate entries (\<^verbatim>\<open>ValueError: cannot handle a non-unique multi-index!\<close>);
  otherwise every entry of the template takes the row with that index entry, or a row of
  missing values when there is none. Two missing codes count as equal entries.
\<close>

definition reindex_row ::
  "'n dated_row list \<Rightarrow> 'n cell \<times> string \<Rightarrow> 'n cell \<times> string \<times> 'n cell \<times> 'n cell" where
  "reindex_row df_final cm =
     (case find (\<lambda>r. index_key r = (fst cm, Some (snd cm))) df_final of
        None \<Rightarrow> (fst cm, snd cm, NA, NA)
      | Some r \<Rightarrow> (fst cm, snd cm, d_source r, d_value r))"

definition reindex ::
  "'n dated_row list \<Rightarrow> ('n cell \<times> string) list
     \<Rightarrow> error + ('n cell \<times> string \<times> 'n cell \<times> 'n cell) list" where
  "reindex df_final template =
     (if distinct (map index_key df_final) then Inr (map (reindex_row df_final) template)
      else Inl NonUniqueIndex)"

section \<open>Numeric coercion and the output rows\<close>

text \<open>
  \<^verbatim>\<open>pd.to_numeric(df_final["Value"], errors="coerce")\<close> on one entry of the column:
  a string is parsed by the library's parser \<open>parse\<close>, anything that does not parse is
  missing, and a number is stored as the final dtype of the column holds it, by the
  conversion \<open>conv\<close>.
\<close>

fun to_numeric :: "(string \<Rightarrow> 'n option) \<Rightarrow> ('n \<Rightarrow> 'n) \<Rightarrow> 'n cell \<Rightarrow> 'n cell" where
  "to_numeric parse conv (Num n) = Num (conv n)"
| "to_numeric parse conv (Str s) = (case parse s of None \<Rightarrow> NA | Some n \<Rightarrow> Num (conv n))"
| "to_numeric parse conv NA = NA"

record 'n long_record =
  Year :: int
  Month :: string
  Revenue_Code :: "'n cell"
  Revenue_Source :: "'n cell"
  Value :: "'n cell"

section \<open>The pipeline of \<^verbatim>\<open>Actual_Revenue.py\<close>\<close>

definition actual_row ::
  "(string \<Rightarrow> 'n option) \<Rightarrow> ('n \<Rightarrow> 'n) \<Rightarrow> int
     \<Rightarrow> 'n cell \<times> string \<times> 'n cell \<times> 'n cell \<Rightarrow> 'n long_record" where
  "actual_row parse conv y t =
     (case t of (c, m, s, v) \<Rightarrow>
        \<lparr>Year = y, Month = m, Revenue_Code = c, Revenue_Source = s,
         Value = to_numeric parse conv v\<rparr>)"

text \<open>
  Steps 2 to 9 on the frame that \<^verbatim>\<open>read_excel\<close> returned, for a file of the given
  name (the script takes \<^verbatim>\<open>os.path.basename\<close> of its fixed path). An error ends the
  script before \<^verbatim>\<open>to_sql\<close> is reached.
\<close>

definition actual_transform ::
  "('n \<Rightarrow> string) \<Rightarrow> (string \<Rightarrow> 'n option) \<Rightarrow> string \<Rightarrow> 'n frame
     \<Rightarrow> error + 'n long_record list" where
  "actual_transform show_num parse file_name df0 =
     (case slice_to_last show_num (strip_columns df0) of
        Inl e \<Rightarrow> Inl e
      | Inr df \<Rightarrow>
          (let df_melted = melt (clean_values df) in
           case extract_year file_name of
             Inl e \<Rightarrow> Inl e
           | Inr extracted_year \<Rightarrow>
               (let df_final = map (with_date extracted_year) df_melted;
                    unique_codes = unique (map d_code df_final)
                in case reindex df_final (reindex_template unique_codes) of
                     Inl e \<Rightarrow> Inl e
                   | Inr ix \<Rightarrow>
                       Inr (map (actual_row parse (value_dtype df0) extracted_year) ix))))"

definition actual_file_name :: string where
  "actual_file_name = ''2020 Actual Revenue.xlsx''"

section \<open>The pipeline of \<^verbatim>\<open>Estimate_Revenue.py\<close>\<close>

definition estimate_row ::
  "(string \<Rightarrow> 'n option) \<Rightarrow> ('n \<Rightarrow> 'n) \<Rightarrow> int \<Rightarrow> 'n melted_row \<Rightarrow> 'n long_record" where
  "estimate_row parse conv y r =
     \<lparr>Year = y, Month = var_month r, Revenue_Code = id_code r, Revenue_Source = id_source r,
      Value = to_numeric parse conv (m_value r)\<rparr>"

text \<open>Steps 3 to 8 inside the \<^verbatim>\<open>try\<close> block, after \<^verbatim>\<open>read_excel\<close>.\<close>

definition estimate_transform ::
  "('n \<Rightarrow> string) \<Rightarrow> (string \<Rightarrow> 'n option) \<Rightarrow> string \<Rightarrow> 'n frame
     \<Rightarrow> error + 'n long_record list" where
  "estimate_transform show_num parse file_name df0 =
     (let df_melted = melt (clean_values (filter_valid show_num (strip_columns df0)))
      in case extract_year file_name of
           Inl e \<Rightarrow> Inl e
         | Inr extracted_year \<Rightarrow>
             Inr (map (estimate_row parse (value_dtype df0) extracted_year) df_melted))"

subsection \<open>The loop over the files\<close>

text \<open>
  The lines the script prints, and the state the loop changes: the staging table and the
  printed lines. \<open>read_excel\<close> is the reader, which may raise; \<open>to_sql\<close> tells
  whether the database rejects the rows to append, given the table so far. The append runs
  in one transaction, so a rejected write leaves the table as it was.
\<close>

datatype message = Processing string | Loaded nat string | Failed string error

record 'n run_state =
  table :: "'n long_record list"
  printed :: "message list"

text \<open>The body of the \<^verbatim>\<open>try\<close> block: the rows loaded, or the exception caught.\<close>

definition try_file ::
  "(string \<Rightarrow> error + 'n frame) \<Rightarrow> ('n long_record list \<Rightarrow> 'n long_record list \<Rightarrow> error option)
     \<Rightarrow> ('n \<Rightarrow> string) \<Rightarrow> (string \<Rightarrow> 'n option) \<Rightarrow> 'n long_record list \<Rightarrow> string
     \<Rightarrow> error + 'n long_record list" where
  "try_file read_excel to_sql show_num parse tbl file_name =
     (case read_excel file_name of
        Inl e \<Rightarrow> Inl e
      | Inr df0 \<Rightarrow>
          (case estimate_transform show_num parse file_name df0 of
             Inl e \<Rightarrow> Inl e
           | Inr df_final \<Rightarrow>
               (case to_sql tbl df_final of
                  Some e \<Rightarrow> Inl e
                | None \<Rightarrow> Inr df_final)))"

text \<open>One iteration of \<^verbatim>\<open>for file_name in excel_files\<close> with its \<^verbatim>\<open>except Exception\<close>.\<close>

definition process_file ::
  "(string \<Rightarrow> error + 'n frame) \<Rightarrow> ('n long_record list \<Rightarrow> 'n long_record list \<Rightarrow> error option)
     \<Rightarrow> ('n \<Rightarrow> string) \<Rightarrow> (string \<Rightarrow> 'n option) \<Rightarrow> 'n run_state \<Rightarrow> string \<Rightarrow> 'n run_state" where
  "process_file read_excel to_sql show_num parse st file_name =
     (case try_file read_excel to_sql show_num parse (table st) file_name of
        Inl e \<Rightarrow> st\<lparr>printed := printed st @ [Processing file_name, Failed file_name e]\<rparr>
      | Inr df_final \<Rightarrow>
          st\<lparr>table := table st @ df_final,
             printed := printed st @ [Processing file_name, Loaded (length df_final) file_name]\<rparr>)"



section \<open>The year as the specification words it\<close>

text \<open>
  The specification asks for the first maximal run of exactly four consecutive digits.
  \<open>digit_runs\<close> lists the maximal runs of digits of a string from left to right, and
  \<open>spec_year\<close> takes the first run of length four. It is compared with
  \<open>search_year\<close>, which is what the scripts compute.
\<close>

text \<open>Four consecutive digits start at position \<open>i\<close> of the string.\<close>

definition four_digits_at :: "string \<Rightarrow> nat \<Rightarrow> bool" where
  "four_digits_at s i \<longleftrightarrow> i + 4 \<le> length s \<and> list_all is_digit (take 4 (drop i s))"

fun digit_runs_acc :: "string \<Rightarrow> string \<Rightarrow> string list" where
  "digit_runs_acc [] w = (if w = [] then [] else [w])"
| "digit_runs_acc (c # cs) w =
     (if is_digit c then digit_runs_acc cs (w @ [c])
      else (if w = [] then digit_runs_acc cs [] else w # digit_runs_acc cs []))"

definition digit_runs :: "string \<Rightarrow> string list" where
  "digit_runs s = digit_runs_acc s []"

definition spec_year :: "string \<Rightarrow> string option" where
  "spec_year s = find (\<lambda>r. length r = 4) (digit_runs s)"

section \<open>Sample sheets\<close>

text \<open>
  Small sheets with integer cells, used to run the pipelines. \<open>sample_parse\<close> stands
  for the parser of \<^verbatim>\<open>pd.to_numeric\<close> on them: it reads unsigned decimal numerals.
  The sample sheets take \<^verbatim>\<open>float64\<close> for both conversions, as pandas does for a
  column with a missing entry: \<open>float64_of_int\<close> is the integer nearest to \<open>n\<close>
  that has 53 significant bits, ties going to the even one, which is the value of \<open>n\<close>
  in a \<^verbatim>\<open>float64\<close> column (for the integers below \<open>2 ^ 1024\<close>). All sample
  values but the one of \<open>large_row\<close> are below \<open>2 ^ 53\<close>, and an \<^verbatim>\<open>int64\<close>
  column would store them the same.
\<close>

function bit_length :: "int \<Rightarrow> nat" where
  "bit_length n = (if n \<le> 0 then 0 else Suc (bit_length (n div 2)))"
  by pat_completeness auto
termination
  by (relation "measure nat") auto

declare bit_length.simps [simp del]

definition round_bits :: "int \<Rightarrow> int" where
  "round_bits m =
     (if bit_length m \<le> 53 then m
      else (let e = bit_length m - 53; q = m div 2 ^ e; r = m mod 2 ^ e; h = 2 ^ (e - 1)
            in (if h < r \<or> (r = h \<and> odd q) then q + 1 else q) * 2 ^ e))"

definition float64_of_int :: "int \<Rightarrow> int" where
  "float64_of_int n = (if n < 0 then - round_bits (- n) else round_bits n)"

definition sample_parse :: "string \<Rightarrow> int option" where
  "sample_parse s = (if s \<noteq> [] \<and> list_all is_digit s then Some (int_of_digits s) else None)"

definition sales_row :: "int wide_row" where
  "sales_row = \<lparr>code = Str ''1000.01.01'', source = Str ''Sales'',
                 vals = [Num 100, Str ''-'', Num 300]\<rparr>"

definition total_row :: "int wide_row" where
  "total_row = \<lparr>code = Str ''TOTAL'', source = NA, vals = [Num 400, NA, Num 300]\<rparr>"

definition blank_source_row :: "int wide_row" where
  "blank_source_row = \<lparr>code = Str ''2000.05.10'', source = NA, vals = [Num 150]\<rparr>"

definition padded_dash_row :: "int wide_row" where
  "padded_dash_row = \<lparr>code = Str ''3000.01.01'', source = Str '' - '', vals = [Str '' - '']\<rparr>"



definition sheet :: "string list \<Rightarrow> int wide_row list \<Rightarrow> int frame" where
  "sheet hs rs = \<lparr>month_cols = hs, rows = rs, melt_dtype = float64_of_int,
                  value_dtype = float64_of_int\<rparr>"




section \<open>Properties of the cleaning step\<close>

lemma strip_idem: "strip (strip s) = strip s"
proof -
  define t where "t = dropWhile is_space s"
  define u where "u = rev (dropWhile is_space (rev t))"
  have su: "strip s = u" by (simp add: strip_def t_def u_def)
  have "rev t = takeWhile is_space (rev t) @ dropWhile is_space (rev t)" by simp
  then have "t = u @ rev (takeWhile is_space (rev t))"
    unfolding u_def by (metis rev_append rev_rev_ident)
  then obtain v where tv: "t = u @ v" by blast
  have d1: "dropWhile is_space u = u"
  proof (cases u)
    case Nil then show ?thesis by simp
  next
    case (Cons a w)
    with tv have "t = a # (w @ v)" by simp
    then have "\<not> is_space a" unfolding t_def by (metis hd_dropWhile list.sel(1) list.distinct(1))
    with Cons show ?thesis by simp
  qed
  have d2: "dropWhile is_space (rev u) = rev u"
    unfolding u_def by simp
  show ?thesis unfolding su by (simp add: strip_def d1 d2)
qed

lemma clean_values_rows:
  "rows (clean_values df)
     = map (\<lambda>r. fill_row (map_row strip_cell (map_row replace_dash r))) (rows df)"
  by (simp add: clean_values_def fillna_source_def map_frame_def)

lemma clean_values_months: "month_cols (clean_values df) = month_cols df"
  by (simp add: clean_values_def fillna_source_def map_frame_def)

text \<open>
  Claim C5, as the code has it. Cleaning rewrites every cell of the frame: a cell that is
  exactly the string \<^verbatim>\<open>"-"\<close> becomes missing, every other string cell is trimmed, a
  number or a missing cell stays as it is; afterwards a row whose cleaned source is
  missing takes its cleaned code as source. Both pipelines melt the cleaned frame. The
  replacement looks at the cell before it is trimmed.
\<close>

theorem clean_values_cells:
  "clean_values df =
     df\<lparr>rows := map (\<lambda>r.
        \<lparr>code = strip_cell (replace_dash (code r)),
         source = (if strip_cell (replace_dash (source r)) = NA
                   then strip_cell (replace_dash (code r))
                   else strip_cell (replace_dash (source r))),
         vals = map (\<lambda>c. strip_cell (replace_dash c)) (vals r)\<rparr>) (rows df)\<rparr>
   \<and> strip_cell (replace_dash (Str s)) = (if s = ''-'' then NA else Str (strip s))
   \<and> strip_cell (replace_dash (Num n)) = Num n
   \<and> strip_cell (replace_dash (NA :: 'n cell)) = NA
   \<and> estimate_transform show_num parse file_name df0 =
       (case extract_year file_name of
          Inl e \<Rightarrow> Inl e
        | Inr y \<Rightarrow> Inr (map (estimate_row parse (value_dtype df0) y)
                     (melt (clean_values (filter_valid show_num (strip_columns df0))))))"
proof (intro conjI)
  show "estimate_transform show_num parse file_name df0 =
       (case extract_year file_name of
          Inl e \<Rightarrow> Inl e
        | Inr y \<Rightarrow> Inr (map (estimate_row parse (value_dtype df0) y)
                     (melt (clean_values (filter_valid show_num (strip_columns df0))))))"
    by (simp add: estimate_transform_def)
qed (simp_all add: clean_values_def fillna_source_def map_frame_def fill_row_def map_row_def
      replace_dash_def)

text \<open>
  Claim C5 as it is worded fails: the cell \<^verbatim>\<open>" - "\<close> has the stripped form
  \<^verbatim>\<open>"-"\<close>, and cleaning turns it into the string \<^verbatim>\<open>"-"\<close>, not into a missing
  value; as a source it is not replaced by the code.
\<close>

theorem padded_dash_kept:
  "strip '' - '' = ''-'' \<and>
   rows (clean_values (sheet [''January''] [padded_dash_row]))
     = [\<lparr>code = Str ''3000.01.01'', source = Str ''-'', vals = [Str ''-'']\<rparr>]"
  by (simp add: clean_values_def fillna_source_def map_frame_def fill_row_def map_row_def
      replace_dash_def sheet_def padded_dash_row_def strip_def is_space_def)

lemma clean_cell_idem:
  assumes "\<And>s. c = Str s \<Longrightarrow> strip s = ''-'' \<Longrightarrow> s = ''-''"
  shows "strip_cell (replace_dash (strip_cell (replace_dash c))) = strip_cell (replace_dash c)"
proof (cases c)
  case (Str s)
  show ?thesis
  proof (cases "s = ''-''")
    case True with Str show ?thesis by (simp add: replace_dash_def)
  next
    case False
    with assms Str have "strip s \<noteq> ''-''" by blast
    with False Str show ?thesis by (simp add: replace_dash_def strip_idem)
  qed
qed (simp_all add: replace_dash_def)

lemma clean_row_idem:
  assumes "\<And>s. Str s \<in> set (code r # source r # vals r) \<Longrightarrow> strip s = ''-'' \<Longrightarrow> s = ''-''"
  shows "fill_row (map_row strip_cell (map_row replace_dash
           (fill_row (map_row strip_cell (map_row replace_dash r)))))
         = fill_row (map_row strip_cell (map_row replace_dash r))"
proof -
  let ?h = "\<lambda>c. strip_cell (replace_dash c)"
  have c: "?h (?h (code r)) = ?h (code r)" using assms by (intro clean_cell_idem) simp
  have s: "?h (?h (source r)) = ?h (source r)" using assms by (intro clean_cell_idem) simp
  have v: "map (\<lambda>c. ?h (?h c)) (vals r) = map ?h (vals r)"
    using assms by (intro map_cong refl clean_cell_idem) simp
  show ?thesis
    using c s v by (simp add: fill_row_def map_row_def o_def)
qed

text \<open>
  Claim C6, as the code has it. On a frame in which the only string cell whose stripped
  form is \<^verbatim>\<open>"-"\<close> is the string \<^verbatim>\<open>"-"\<close> itself, cleaning the cleaned frame changes
  nothing.
\<close>

theorem clean_values_idempotent:
  assumes "\<And>r s. r \<in> set (rows df) \<Longrightarrow> Str s \<in> set (code r # source r # vals r)
             \<Longrightarrow> strip s = ''-'' \<Longrightarrow> s = ''-''"
  shows "clean_values (clean_values df) = clean_values df"
proof -
  let ?g = "\<lambda>r. fill_row (map_row strip_cell (map_row replace_dash r))"
  have "map (\<lambda>r. ?g (?g r)) (rows df) = map ?g (rows df)"
    using assms by (intro map_cong refl clean_row_idem) blast
  then show ?thesis
    by (simp add: clean_values_def fillna_source_def map_frame_def o_def)
qed

theorem clean_values_idempotent_witness:
  "clean_values (clean_values (sheet month_order [sales_row, total_row, blank_source_row]))
     = clean_values (sheet month_order [sales_row, total_row, blank_source_row])"
  by (rule clean_values_idempotent)
     (auto simp add: sheet_def sales_row_def total_row_def blank_source_row_def strip_def
        is_space_def)

text \<open>
  Claim C6 as it is worded fails: a cell \<^verbatim>\<open>" - "\<close> is trimmed to \<^verbatim>\<open>"-"\<close> by the
  first cleaning and made missing by the second.
\<close>

theorem clean_values_not_idempotent:
  "clean_values (clean_values (sheet [''January''] [padded_dash_row]))
     \<noteq> clean_values (sheet [''January''] [padded_dash_row])"
  by (simp add: clean_values_def fillna_source_def map_frame_def fill_row_def map_row_def
      replace_dash_def sheet_def padded_dash_row_def strip_def is_space_def)

section \<open>The pattern, the melt and the validated rows\<close>

lemma match_atoms_Some:
  "match_atoms as s = Some r \<Longrightarrow> \<exists>p. s = p @ r \<and> list_all2 atom_ok as p"
proof (induction as s rule: match_atoms.induct)
  case (1 s)
  then show ?case by simp
next
  case (2 a as)
  then show ?case by simp
next
  case (3 a as c cs)
  then have ok: "atom_ok a c" and m: "match_atoms as cs = Some r"
    by (auto split: if_splits)
  from "3.IH" [OF ok m] obtain p where "cs = p @ r" "list_all2 atom_ok as p" by blast
  with ok have "c # cs = (c # p) @ r \<and> list_all2 atom_ok (a # as) (c # p)" by simp
  then show ?case by blast
qed

lemma match_atoms_append:
  "list_all2 atom_ok as p \<Longrightarrow> match_atoms as (p @ r) = Some r"
  by (induction as p rule: list_all2_induct) simp_all

lemma atom_not_space: "atom_ok a c \<Longrightarrow> \<not> is_space c"
  by (cases a) (auto simp add: is_digit_def is_space_def)

lemma at_end_spaces: "at_end r \<Longrightarrow> \<forall>c\<in>set r. is_space c"
  by (auto simp add: at_end_def is_space_def)

lemma strip_core:
  assumes "p \<noteq> []" "\<forall>c\<in>set p. \<not> is_space c" "\<forall>c\<in>set r. is_space c"
  shows "strip (p @ r) = p"
proof -
  from assms(1) obtain a q where p: "p = a # q" by (cases p) auto
  with assms(2) have "\<not> is_space a" by simp
  then have d1: "dropWhile is_space (p @ r) = p @ r" by (simp add: p)
  from assms(1) obtain b q' where rp: "rev p = b # q'" by (cases "rev p") auto
  then have "b \<in> set p" by (metis list.set_intros(1) set_rev)
  with assms(2) have nb: "\<not> is_space b" by blast
  have "dropWhile is_space (rev r @ rev p) = dropWhile is_space (rev p)"
    by (rule dropWhile_append2) (use assms(3) in auto)
  also have "\<dots> = rev p" using nb by (simp add: rp)
  finally show ?thesis by (simp add: strip_def d1)
qed

lemma str_match_strip:
  assumes "str_match s"
  shows "str_match (strip s) \<and> s \<noteq> ''-''"
proof -
  from assms obtain r where m: "match_atoms pattern s = Some r" and e: "at_end r"
    by (auto simp add: str_match_def split: option.splits)
  from match_atoms_Some [OF m] obtain p where s: "s = p @ r" and ok: "list_all2 atom_ok pattern p"
    by blast
  from ok have len: "length p = 10" by (simp add: list_all2_lengthD [symmetric] pattern_def)
  then have ne: "p \<noteq> []" by auto
  have ns: "\<forall>c\<in>set p. \<not> is_space c"
    using ok atom_not_space by (metis in_set_conv_nth list_all2_conv_all_nth)
  have "strip s = p" unfolding s by (rule strip_core [OF ne ns at_end_spaces [OF e]])
  moreover have "match_atoms pattern (p @ []) = Some []" by (rule match_atoms_append [OF ok])
  ultimately have "str_match (strip s)" by (simp add: str_match_def at_end_def)
  moreover have "10 \<le> length s" using s len by simp
  then have "s \<noteq> ''-''" by auto
  ultimately show ?thesis by simp
qed

lemma is_code_clean:
  "is_code show_num c \<Longrightarrow> is_code show_num (strip_cell (replace_dash c))"
proof (cases c)
  case (Str s)
  assume "is_code show_num c"
  with Str have "str_match s" by (simp add: is_code_def)
  from str_match_strip [OF this] Str show ?thesis
    by (simp add: is_code_def replace_dash_def)
qed (simp_all add: replace_dash_def)

lemma in_melt:
  "m \<in> set (melt df) \<longleftrightarrow>
     (\<exists>j r. j < length (month_cols df) \<and> r \<in> set (rows df) \<and>
        m = \<lparr>id_code = code r, id_source = source r, var_month = month_cols df ! j,
             m_value = store (melt_dtype df) (cell_at r j)\<rparr>)"
proof
  assume "m \<in> set (melt df)"
  then obtain jm r where jm: "jm \<in> set (enumerate 0 (month_cols df))"
    and r: "r \<in> set (rows df)"
    and m: "m = \<lparr>id_code = code r, id_source = source r, var_month = snd jm,
                   m_value = store (melt_dtype df) (cell_at r (fst jm))\<rparr>"
    by (auto simp add: melt_def melt_col_def)
  from jm have "(fst jm, snd jm) \<in> set (enumerate 0 (month_cols df))" by simp
  then have "fst jm < length (month_cols df) \<and> snd jm = month_cols df ! fst jm"
    unfolding in_set_enumerate_eq by simp
  with r m show "\<exists>j r. j < length (month_cols df) \<and> r \<in> set (rows df) \<and>
        m = \<lparr>id_code = code r, id_source = source r, var_month = month_cols df ! j,
             m_value = store (melt_dtype df) (cell_at r j)\<rparr>" by auto
next
  assume "\<exists>j r. j < length (month_cols df) \<and> r \<in> set (rows df) \<and>
        m = \<lparr>id_code = code r, id_source = source r, var_month = month_cols df ! j,
             m_value = store (melt_dtype df) (cell_at r j)\<rparr>"
  then obtain j r where j: "j < length (month_cols df)" and r: "r \<in> set (rows df)"
    and m: "m = \<lparr>id_code = code r, id_source = source r, var_month = month_cols df ! j,
             m_value = store (melt_dtype df) (cell_at r j)\<rparr>" by blast
  from j have "(j, month_cols df ! j) \<in> set (enumerate 0 (month_cols df))"
    by (simp add: in_set_enumerate_eq)
  moreover from r m have "m \<in> set (melt_col (melt_dtype df) (rows df) (j, month_cols df ! j))"
    by (simp add: melt_col_def)
  ultimately show "m \<in> set (melt df)" unfolding melt_def by auto
qed

lemma melt_no_rows: "rows df = [] \<Longrightarrow> melt df = []"
  by (simp add: melt_def melt_col_def)

lemma length_melt: "length (melt df) = length (month_cols df) * length (rows df)"
proof -
  have "map (length \<circ> melt_col (melt_dtype df) (rows df)) (enumerate 0 (month_cols df))
          = replicate (length (month_cols df)) (length (rows df))"
    by (simp add: map_replicate_const [symmetric] melt_col_def o_def del: map_replicate_const)
       (metis length_enumerate map_replicate_const)
  then show ?thesis
    by (simp add: melt_def length_concat sum_list_replicate)
qed

lemma estimate_codes:
  assumes "estimate_transform show_num parse file_name df0 = Inr out" "x \<in> set out"
  shows "is_code show_num (Revenue_Code x)"
proof -
  let ?F = "clean_values (filter_valid show_num (strip_columns df0))"
  from assms obtain y where "out = map (estimate_row parse (value_dtype df0) y) (melt ?F)"
    by (auto simp add: estimate_transform_def Let_def split: sum.splits)
  with assms(2) obtain m where m: "m \<in> set (melt ?F)" and x: "Revenue_Code x = id_code m"
    by (auto simp add: estimate_row_def)
  from m obtain r where r: "r \<in> set (rows ?F)" and c: "id_code m = code r"
    unfolding in_melt by auto
  from r obtain r0 where r0: "r0 \<in> set (rows df0)" "is_code show_num (code r0)"
    and rr: "r = fill_row (map_row strip_cell (map_row replace_dash r0))"
    by (auto simp add: clean_values_rows filter_valid_def strip_columns_def)
  from rr have "code r = strip_cell (replace_dash (code r0))"
    by (simp add: fill_row_def map_row_def)
  with r0(2) x c show ?thesis by (simp add: is_code_clean)
qed

lemma estimate_drops:
  "estimate_transform show_num parse file_name
     (df0\<lparr>rows := filter (\<lambda>r. is_code show_num (code r)) (rows df0)\<rparr>)
   = estimate_transform show_num parse file_name df0"
  by (simp add: estimate_transform_def filter_valid_def strip_columns_def split: sum.splits)

lemma valid_index_sorted: "sorted (valid_index show_num df)"
  unfolding valid_index_def by (rule sorted_wrt_filter) simp

lemma slice_to_last_Inr:
  assumes "slice_to_last show_num df = Inr df'"
  shows "\<exists>k. k < length (rows df) \<and> is_code show_num (code (rows df ! k)) \<and>
           (\<forall>i. k < i \<and> i < length (rows df) \<longrightarrow> \<not> is_code show_num (code (rows df ! i))) \<and>
           df' = df\<lparr>rows := take (Suc k) (rows df)\<rparr>"
proof -
  let ?v = "valid_index show_num df"
  from assms obtain k ks where rv: "rev ?v = k # ks"
    and d: "df' = df\<lparr>rows := take (Suc k) (rows df)\<rparr>"
    by (auto simp add: slice_to_last_def split: list.splits)
  from rv have v: "?v = rev ks @ [k]" by (simp add: rev_eq_Cons_iff)
  then have "k \<in> set ?v" by simp
  then have k: "k < length (rows df)" "is_code show_num (code (rows df ! k))"
    by (auto simp add: valid_index_def)
  from valid_index_sorted [of show_num df] v have le: "\<forall>x\<in>set ?v. x \<le> k"
    by (auto simp add: sorted_append)
  have "\<not> is_code show_num (code (rows df ! i))" if "k < i" "i < length (rows df)" for i
  proof
    assume "is_code show_num (code (rows df ! i))"
    with that have "i \<in> set ?v" by (simp add: valid_index_def)
    with le have "i \<le> k" by blast
    with that show False by simp
  qed
  with k d show ?thesis by blast
qed

lemma slice_to_last_eval:
  "rev (valid_index show_num df) = k # ks \<Longrightarrow>
     slice_to_last show_num df = Inr (df\<lparr>rows := take (Suc k) (rows df)\<rparr>)"
  by (simp add: slice_to_last_def)

lemma slice_to_last_whole:
  assumes "rows df \<noteq> []" and "is_code show_num (code (last (rows df)))"
  shows "slice_to_last show_num df = Inr df"
proof -
  let ?n = "length (rows df)"
  let ?P = "\<lambda>i. is_code show_num (code (rows df ! i))"
  from assms(1) obtain m where n: "?n = Suc m" by (cases "rows df") auto
  with assms have "?P m" by (simp add: last_conv_nth)
  moreover have "[0..<?n] = [0..<m] @ [m]" using n by simp
  ultimately have "valid_index show_num df = filter ?P [0..<m] @ [m]"
    by (simp add: valid_index_def)
  then have "rev (valid_index show_num df) = m # rev (filter ?P [0..<m])" by simp
  from slice_to_last_eval [OF this] n show ?thesis by simp
qed

lemma slice_to_last_Inl:
  "slice_to_last show_num df = Inl e \<longleftrightarrow>
     e = IndexError \<and> (\<forall>r\<in>set (rows df). \<not> is_code show_num (code r))"
proof -
  have "valid_index show_num df = [] \<longleftrightarrow> (\<forall>r\<in>set (rows df). \<not> is_code show_num (code r))"
    by (auto simp add: valid_index_def filter_empty_conv in_set_conv_nth)
       (use nth_mem in blast)
  then show ?thesis
    by (auto simp add: slice_to_last_def split: list.splits)
qed

text \<open>
  Claim C2, as the code has it. In \<^verbatim>\<open>Estimate_Revenue.py\<close> every emitted record has a
  revenue code whose string form matches the pattern, and a row whose first cell does not
  match contributes nothing: the output is that of the sheet without those rows. In
  \<^verbatim>\<open>Actual_Revenue.py\<close> the frame is cut after the last matching row \<open>k\<close>: the rows
  after it are dropped, and every row up to it is kept, matching or not.
\<close>

theorem code_pattern_filter:
  "(estimate_transform show_num parse file_name df0 = Inr out \<longrightarrow>
      (\<forall>x\<in>set out. is_code show_num (Revenue_Code x)))
   \<and> estimate_transform show_num parse file_name
        (df0\<lparr>rows := filter (\<lambda>r. is_code show_num (code r)) (rows df0)\<rparr>)
      = estimate_transform show_num parse file_name df0
   \<and> (slice_to_last show_num df = Inr df' \<longrightarrow>
        (\<exists>k. k < length (rows df) \<and> is_code show_num (code (rows df ! k)) \<and>
           (\<forall>i. k < i \<and> i < length (rows df) \<longrightarrow> \<not> is_code show_num (code (rows df ! i))) \<and>
           df' = df\<lparr>rows := take (Suc k) (rows df)\<rparr>))"
  using estimate_codes [of show_num parse file_name df0 out] estimate_drops [of show_num parse file_name df0]
    slice_to_last_Inr [of show_num df df']
  by blast

text \<open>
  Claim C3, as the code has it. When no row of the sheet has a revenue code,
  \<^verbatim>\<open>Actual_Revenue.py\<close> stops at \<^verbatim>\<open>valid_rows.index[-1]\<close> with an
  \<^verbatim>\<open>IndexError\<close> and emits nothing, and \<^verbatim>\<open>Estimate_Revenue.py\<close> raises nothing for
  it: unless the file name has no year, it hands an empty table to the database.
\<close>

theorem no_valid_rows:
  assumes "\<And>r. r \<in> set (rows df0) \<Longrightarrow> \<not> is_code show_num (code r)"
  shows "actual_transform show_num parse file_name df0 = Inl IndexError
       \<and> estimate_transform show_num parse file_name df0 =
           (case extract_year file_name of Inl e \<Rightarrow> Inl e | Inr y \<Rightarrow> Inr [])"
proof
  have "slice_to_last show_num (strip_columns df0) = Inl IndexError"
    using assms by (simp add: slice_to_last_Inl strip_columns_def)
  then show "actual_transform show_num parse file_name df0 = Inl IndexError"
    by (simp add: actual_transform_def)
next
  have "rows (filter_valid show_num (strip_columns df0)) = []"
    using assms by (simp add: filter_valid_def strip_columns_def filter_empty_conv)
  then have "melt (clean_values (filter_valid show_num (strip_columns df0))) = []"
    by (intro melt_no_rows) (simp add: clean_values_rows)
  then show "estimate_transform show_num parse file_name df0 =
           (case extract_year file_name of Inl e \<Rightarrow> Inl e | Inr y \<Rightarrow> Inr [])"
    by (simp add: estimate_transform_def split: sum.splits)
qed

lemmas sample_defs = is_code_def str_match_def pattern_def at_end_def is_digit_def is_space_def
  sheet_def total_row_def sales_row_def blank_source_row_def month_order_def
  extract_year_def int_of_digits_def digit_val_def

text \<open>
  A sheet with two \<^verbatim>\<open>TOTAL\<close> rows and no revenue row.
\<close>

theorem no_valid_rows_witness:
  "actual_transform str_int sample_parse ''2021 Report.xlsx''
      (sheet month_order [total_row, total_row]) = Inl IndexError
   \<and> estimate_transform str_int sample_parse ''2021 Report.xlsx''
      (sheet month_order [total_row, total_row]) = Inr []"
  using no_valid_rows [of "sheet month_order [total_row, total_row]" str_int sample_parse
      "''2021 Report.xlsx''"]
  by (simp add: sample_defs)

text \<open>
  Claim C3 as it is worded fails for \<^verbatim>\<open>Estimate_Revenue.py\<close>: on a sheet without any
  revenue row the transformation succeeds with an empty table.
\<close>

theorem empty_table_emitted:
  "estimate_transform str_int sample_parse ''2021 Report.xlsx'' (sheet month_order [total_row])
     = Inr []"
  by code_simp

text \<open>
  The sheet with a \<^verbatim>\<open>TOTAL\<close> row and one revenue row, through both validations.
\<close>

theorem code_pattern_filter_witness:
  "estimate_transform str_int sample_parse ''2021 Report.xlsx''
      (sheet [''January''] [total_row, sales_row])
     = Inr [\<lparr>Year = 2021, Month = ''January'', Revenue_Code = Str ''1000.01.01'',
             Revenue_Source = Str ''Sales'', Value = Num 100\<rparr>]
   \<and> is_code str_int (Str ''1000.01.01'')
   \<and> slice_to_last str_int (sheet [''January''] [sales_row, total_row])
       = Inr (sheet [''January''] [sales_row])"
proof -
  let ?out = "[\<lparr>Year = 2021, Month = ''January'', Revenue_Code = Str ''1000.01.01'',
             Revenue_Source = Str ''Sales'', Value = Num (100::int)\<rparr>]"
  have e: "estimate_transform str_int sample_parse ''2021 Report.xlsx''
      (sheet [''January''] [total_row, sales_row]) = Inr ?out"
    by code_simp
  have "rev (valid_index str_int (sheet [''January''] [sales_row, total_row])) = [0]"
    by code_simp
  from slice_to_last_eval [OF this]
  have s: "slice_to_last str_int (sheet [''January''] [sales_row, total_row])
       = Inr (sheet [''January''] [sales_row])"
    by (simp add: sheet_def)
  from code_pattern_filter [of str_int sample_parse "''2021 Report.xlsx''"
      "sheet [''January''] [total_row, sales_row]" ?out
      "sheet [''January''] [sales_row, total_row]" "sheet [''January''] [sales_row]"] e
  have "\<forall>x\<in>set ?out. is_code str_int (Revenue_Code x)" by blast
  then have "is_code str_int (Str ''1000.01.01'')" by simp
  with e s show ?thesis by blast
qed

section \<open>The index of the calendar completion\<close>

lemma digit_char_digit: "k < 10 \<Longrightarrow> is_digit (digit_char k)"
  unfolding is_digit_def digit_char_def by (rule nth_mem) simp

lemma digit_not_space: "is_digit c \<Longrightarrow> \<not> is_space c"
  by (auto simp add: is_digit_def is_space_def)

lemma show_nat_digits: "show_nat n \<noteq> [] \<and> (\<forall>c\<in>set (show_nat n). is_digit c)"
proof (induction n rule: show_nat.induct)
  case (1 n)
  show ?case
  proof (cases "n < 10")
    case True
    then show ?thesis by (subst (1 2) show_nat.simps) (simp add: digit_char_digit)
  next
    case False
    with 1 have "show_nat (n div 10) \<noteq> [] \<and> (\<forall>c\<in>set (show_nat (n div 10)). is_digit c)" by simp
    moreover have "is_digit (digit_char (n mod 10))" by (rule digit_char_digit) simp
    ultimately show ?thesis using False by (subst (1 2) show_nat.simps) auto
  qed
qed

lemma str_int_no_space: "str_int y \<noteq> [] \<and> (\<forall>c\<in>set (str_int y). \<not> is_space c)"
  using show_nat_digits [of "nat y"] show_nat_digits [of "nat (- y)"]
  by (auto simp add: str_int_def digit_not_space) (simp add: is_space_def)

lemma split_acc_word:
  "\<forall>c\<in>set d. \<not> is_space c \<Longrightarrow> split_acc (d @ rest) w = split_acc rest (w @ d)"
  by (induction d arbitrary: w) simp_all

lemma month_of_date_label: "month_of_date (str_int y @ '' '' @ m) = first_word m"
proof -
  have ns: "\<forall>c\<in>set (str_int y). \<not> is_space c" and ne: "str_int y \<noteq> []"
    using str_int_no_space by blast+
  have "split_ws (str_int y @ '' '' @ m) = split_acc ('' '' @ m) (str_int y)"
    unfolding split_ws_def using split_acc_word [OF ns, of "'' '' @ m" "[]"] by simp
  also have "\<dots> = str_int y # split_ws m"
    using ne by (simp add: split_ws_def is_space_def)
  finally show ?thesis
    by (simp add: month_of_date_def first_word_def split: list.splits)
qed

lemma index_key_with_date:
  "index_key (with_date y m) = (id_code m, first_word (var_month m))"
  using month_of_date_label [of y "var_month m"]
  by (simp add: index_key_def with_date_def)

lemma unique_set: "set (unique xs) = set xs"
  by (simp add: unique_def)

lemma unique_distinct: "distinct (unique xs)"
  by (simp add: unique_def)

lemma filter_product:
  "distinct cs \<Longrightarrow> c \<in> set cs \<Longrightarrow>
     filter (\<lambda>cm. fst cm = c) (List.product cs ms) = map (Pair c) ms"
proof (induction cs)
  case Nil
  then show ?case by simp
next
  case (Cons a cs)
  show ?case
  proof (cases "a = c")
    case True
    with Cons.prems have "c \<notin> set cs" by simp
    then have "filter (\<lambda>cm. fst cm = c) (List.product cs ms) = []"
      by (auto simp add: filter_empty_conv)
    with True show ?thesis by (simp add: filter_map o_def)
  next
    case False
    with Cons have "filter (\<lambda>cm. fst cm = c) (List.product cs ms) = map (Pair c) ms" by simp
    with False show ?thesis by (simp add: filter_map o_def)
  qed
qed

lemma reindex_row_present:
  assumes "distinct (map index_key D)" "d \<in> set D" "index_key d = (c, Some m)"
  shows "reindex_row D (c, m) = (c, m, d_source d, d_value d)"
proof -
  from assms(2,3) obtain d' where f: "find (\<lambda>r. index_key r = (c, Some m)) D = Some d'"
    by (cases "find (\<lambda>r. index_key r = (c, Some m)) D") (auto simp add: find_None_iff)
  then have "d' \<in> set D" "index_key d' = (c, Some m)"
    by (auto simp add: find_Some_iff)
  with assms have "d' = d"
    by (metis distinct_map inj_onD)
  with f show ?thesis by (simp add: reindex_row_def)
qed

lemma reindex_row_absent:
  assumes "\<And>d. d \<in> set D \<Longrightarrow> index_key d \<noteq> (c, Some m)"
  shows "reindex_row D (c, m) = (c, m, NA, NA)"
proof -
  have "find (\<lambda>r. index_key r = (c, Some m)) D = None"
    using assms by (simp add: find_None_iff)
  then show ?thesis by (simp add: reindex_row_def)
qed

lemma reindex_row_key: "fst (reindex_row D cm) = fst cm \<and> fst (snd (reindex_row D cm)) = snd cm"
  by (simp add: reindex_row_def split: option.splits)

lemma actual_transform_Inr:
  assumes "actual_transform show_num parse file_name df0 = Inr out"
  obtains df y where
    "slice_to_last show_num (strip_columns df0) = Inr df"
    "extract_year file_name = Inr y"
    "distinct (map index_key (map (with_date y) (melt (clean_values df))))"
    "out = map (\<lambda>cm. actual_row parse (value_dtype df0) y (reindex_row (map (with_date y) (melt (clean_values df))) cm))
             (List.product (unique (map id_code (melt (clean_values df)))) month_order)"
proof -
  from assms obtain df where s: "slice_to_last show_num (strip_columns df0) = Inr df"
    by (auto simp add: actual_transform_def split: sum.splits)
  with assms obtain y where y: "extract_year file_name = Inr y"
    by (auto simp add: actual_transform_def Let_def split: sum.splits)
  let ?D = "map (with_date y) (melt (clean_values df))"
  have c: "(\<lambda>x. d_code (with_date y x)) = (id_code :: 'a melted_row \<Rightarrow> 'a cell)"
    by (simp add: with_date_def fun_eq_iff)
  from assms s y have r: "reindex ?D (reindex_template (unique (map d_code ?D))) \<noteq> Inl NonUniqueIndex"
    by (auto simp add: actual_transform_def Let_def reindex_def split: sum.splits if_splits)
  then have d: "distinct (map index_key ?D)" by (auto simp add: reindex_def split: if_splits)
  with assms s y c have "out = map (\<lambda>cm. actual_row parse (value_dtype df0) y (reindex_row ?D cm))
             (List.product (unique (map id_code (melt (clean_values df)))) month_order)"
    by (simp add: actual_transform_def Let_def reindex_def reindex_template_def o_def)
  with s y d show ?thesis using that by blast
qed

lemma actual_transform_ok:
  assumes "slice_to_last show_num (strip_columns df0) = Inr df"
    and "extract_year file_name = Inr y"
    and "distinct (map (\<lambda>m. (id_code m, first_word (var_month m))) (melt (clean_values df)))"
  shows "actual_transform show_num parse file_name df0 =
     Inr (map (\<lambda>cm. actual_row parse (value_dtype df0) y (reindex_row (map (with_date y) (melt (clean_values df))) cm))
             (List.product (unique (map id_code (melt (clean_values df)))) month_order))"
proof -
  let ?D = "map (with_date y) (melt (clean_values df))"
  have c: "(\<lambda>x. d_code (with_date y x)) = (id_code :: 'a melted_row \<Rightarrow> 'a cell)"
    by (simp add: with_date_def fun_eq_iff)
  have d: "distinct (map index_key ?D)"
    using assms(3) by (simp add: o_def index_key_with_date)
  show ?thesis
    using assms(1,2) d c
    by (simp add: actual_transform_def Let_def reindex_def reindex_template_def o_def)
qed

lemma actual_row_fields:
  "Revenue_Code (actual_row parse conv y (reindex_row D cm)) = fst cm"
  "Month (actual_row parse conv y (reindex_row D cm)) = snd cm"
  "Year (actual_row parse conv y (reindex_row D cm)) = y"
  by (simp_all add: actual_row_def reindex_row_def split: option.splits)

lemma month_order_distinct: "distinct month_order \<and> month_order \<noteq> []"
  by (simp add: month_order_def)

lemma slice_months:
  "slice_to_last show_num df = Inr df' \<Longrightarrow> month_cols df' = month_cols df"
  by (auto simp add: slice_to_last_def split: list.splits)

lemma clean_values_dtype: "melt_dtype (clean_values df) = melt_dtype df"
  by (simp add: clean_values_def fillna_source_def map_frame_def)

lemma slice_dtype:
  "slice_to_last show_num df = Inr df' \<Longrightarrow> melt_dtype df' = melt_dtype df"
  by (auto simp add: slice_to_last_def split: list.splits)

lemma melt_codes:
  "month_cols df \<noteq> [] \<Longrightarrow> id_code ` set (melt df) = code ` set (rows df)"
proof -
  assume ne: "month_cols df \<noteq> []"
  then have l: "0 < length (month_cols df)" by simp
  show ?thesis
  proof (intro equalityI subsetI)
    fix c assume "c \<in> id_code ` set (melt df)"
    then obtain m where "m \<in> set (melt df)" "c = id_code m" by auto
    then obtain r where "r \<in> set (rows df)" "c = code r" unfolding in_melt by auto
    then show "c \<in> code ` set (rows df)" by blast
  next
    fix c assume "c \<in> code ` set (rows df)"
    then obtain r where r: "r \<in> set (rows df)" "c = code r" by auto
    let ?m = "\<lparr>id_code = code r, id_source = source r, var_month = month_cols df ! 0,
             m_value = store (melt_dtype df) (cell_at r 0)\<rparr>"
    from l r have "?m \<in> set (melt df)" unfolding in_melt by blast
    moreover have "id_code ?m = c" using r by simp
    ultimately show "c \<in> id_code ` set (melt df)" by (metis image_eqI)
  qed
qed

lemma actual_absent:
  assumes "actual_transform show_num parse file_name df0 = Inr out"
    and "slice_to_last show_num (strip_columns df0) = Inr df"
    and "x \<in> set out"
    and "\<And>m. m \<in> set (melt (clean_values df)) \<Longrightarrow>
           (id_code m, first_word (var_month m)) \<noteq> (Revenue_Code x, Some (Month x))"
  shows "Value x = NA \<and> Revenue_Source x = NA"
proof -
  from assms(1) obtain df' y where s: "slice_to_last show_num (strip_columns df0) = Inr df'"
    and o: "out = map (\<lambda>cm. actual_row parse (value_dtype df0) y
                 (reindex_row (map (with_date y) (melt (clean_values df'))) cm))
             (List.product (unique (map id_code (melt (clean_values df')))) month_order)"
    by (rule actual_transform_Inr)
  from s assms(2) have [simp]: "df' = df" by simp
  let ?D = "map (with_date y) (melt (clean_values df))"
  from assms(3) o obtain cm where cm: "x = actual_row parse (value_dtype df0) y (reindex_row ?D cm)" by auto
  then have k: "Revenue_Code x = fst cm" "Month x = snd cm" by (simp_all add: actual_row_fields)
  have "reindex_row ?D (fst cm, snd cm) = (fst cm, snd cm, NA, NA)"
  proof (rule reindex_row_absent)
    fix d assume "d \<in> set ?D"
    then obtain m where "m \<in> set (melt (clean_values df))" "d = with_date y m" by auto
    with assms(4) k show "index_key d \<noteq> (fst cm, Some (snd cm))"
      by (simp add: index_key_with_date)
  qed
  with cm show ?thesis by (simp add: actual_row_def)
qed

lemma actual_carries:
  assumes "actual_transform show_num parse file_name df0 = Inr out"
    and "slice_to_last show_num (strip_columns df0) = Inr df"
    and "extract_year file_name = Inr y"
    and "r \<in> set (rows (clean_values df))" and "j < length (month_cols df0)"
    and "first_word (strip (month_cols df0 ! j)) = Some mo" and "mo \<in> set month_order"
  shows "\<lparr>Year = y, Month = mo, Revenue_Code = code r, Revenue_Source = source r,
          Value = to_numeric parse (value_dtype df0) (store (melt_dtype df0) (cell_at r j))\<rparr> \<in> set out"
proof -
  from assms(1) obtain df' y' where s: "slice_to_last show_num (strip_columns df0) = Inr df'"
    and y: "extract_year file_name = Inr y'"
    and d: "distinct (map index_key (map (with_date y') (melt (clean_values df'))))"
    and o: "out = map (\<lambda>cm. actual_row parse (value_dtype df0) y'
                 (reindex_row (map (with_date y') (melt (clean_values df'))) cm))
             (List.product (unique (map id_code (melt (clean_values df')))) month_order)"
    by (rule actual_transform_Inr)
  from s assms(2) have [simp]: "df' = df" by simp
  from y assms(3) have [simp]: "y' = y" by simp
  let ?M = "melt (clean_values df)"
  let ?D = "map (with_date y) ?M"
  have mc: "month_cols (clean_values df) = map strip (month_cols df0)"
    using slice_months [OF assms(2)] by (simp add: clean_values_months strip_columns_def)
  have md: "melt_dtype (clean_values df) = melt_dtype df0"
    using slice_dtype [OF assms(2)] by (simp add: clean_values_dtype strip_columns_def)
  let ?m = "\<lparr>id_code = code r, id_source = source r, var_month = strip (month_cols df0 ! j),
             m_value = store (melt_dtype df0) (cell_at r j)\<rparr>"
  have m: "?m \<in> set ?M"
    unfolding in_melt using assms(4,5) mc md by (intro exI [of _ j] exI [of _ r]) simp
  then have dm: "with_date y ?m \<in> set ?D" by simp
  have k: "index_key (with_date y ?m) = (code r, Some mo)"
    using assms(6) by (simp add: index_key_with_date)
  from d have d': "distinct (map index_key ?D)" by simp
  have rr: "reindex_row ?D (code r, mo) = (code r, mo, d_source (with_date y ?m), d_value (with_date y ?m))"
    by (rule reindex_row_present [OF d' dm k])
  have "code r \<in> set (unique (map id_code ?M))"
    using m by (simp add: unique_set image_iff) (metis melted_row.select_convs(1))
  with assms(7) have "(code r, mo) \<in> set (List.product (unique (map id_code ?M)) month_order)"
    by simp
  then have "actual_row parse (value_dtype df0) y (reindex_row ?D (code r, mo)) \<in> set out"
    using o by simp
  then show ?thesis by (simp add: rr actual_row_def with_date_def)
qed

section \<open>What the two pipelines emit\<close>


lemma estimate_Inr:
  assumes "estimate_transform show_num parse file_name df0 = Inr out"
  obtains y where "extract_year file_name = Inr y"
    "out = map (estimate_row parse (value_dtype df0) y)
             (melt (clean_values (filter_valid show_num (strip_columns df0))))"
  using assms by (auto simp add: estimate_transform_def Let_def split: sum.splits)






lemma month_order_stripped: "map strip month_order = month_order"
  by code_simp

lemma sample_strip: "strip_columns (sheet month_order rs) = sheet month_order rs"
  by (simp add: strip_columns_def sheet_def month_order_stripped)

section \<open>The claims on the emitted records\<close>

lemma sample_slice:
  "slice_to_last str_int (strip_columns (sheet month_order [total_row, sales_row]))
     = Inr (sheet month_order [total_row, sales_row])"
  unfolding sample_strip
proof (rule slice_to_last_whole)
  show "rows (sheet month_order [total_row, sales_row]) \<noteq> []" by (simp add: sheet_def)
  show "is_code str_int (code (last (rows (sheet month_order [total_row, sales_row]))))"
    by code_simp
qed

lemma sample_year: "extract_year ''2021 Report.xlsx'' = Inr 2021"
  by code_simp

lemma sample_keys:
  "distinct (map (\<lambda>m. (id_code m, first_word (var_month m)))
     (melt (clean_values (sheet month_order [total_row, sales_row]))))"
  by code_simp

lemma sample_rows:
  "rows (clean_values (sheet month_order [total_row, sales_row]))
     = [\<lparr>code = Str ''TOTAL'', source = Str ''TOTAL'', vals = [Num 400, NA, Num 300]\<rparr>,
        \<lparr>code = Str ''1000.01.01'', source = Str ''Sales'', vals = [Num 100, NA, Num 300]\<rparr>]"
  by code_simp

lemma sample_actual:
  "\<exists>out. actual_transform str_int sample_parse ''2021 Report.xlsx''
           (sheet month_order [total_row, sales_row]) = Inr out"
  using actual_transform_ok [OF sample_slice sample_year sample_keys] by blast

text \<open>
  Claim C1, as the code has it. Whenever \<^verbatim>\<open>Actual_Revenue.py\<close> produces a table, no
  pair of code and month occurs twice in it, every code of the table has exactly the
  twelve canonical months, in calendar order, the codes of the table are the codes of
  the rows kept by the slice (given there is a month column at all), and a record whose
  code and month are not in the index of the melted frame has a missing value and a
  missing source. \<^verbatim>\<open>Estimate_Revenue.py\<close> has no completion step.
\<close>

theorem twelve_months_per_code:
  assumes "actual_transform show_num parse file_name df0 = Inr out"
    and "slice_to_last show_num (strip_columns df0) = Inr df"
  shows "distinct (map (\<lambda>x. (Revenue_Code x, Month x)) out)
     \<and> (\<forall>c\<in>Revenue_Code ` set out.
          map Month (filter (\<lambda>x. Revenue_Code x = c) out) = month_order)
     \<and> (month_cols df0 \<noteq> [] \<longrightarrow> Revenue_Code ` set out = code ` set (rows (clean_values df)))
     \<and> (\<forall>x\<in>set out.
          (\<forall>m\<in>set (melt (clean_values df)).
             (id_code m, first_word (var_month m)) \<noteq> (Revenue_Code x, Some (Month x)))
          \<longrightarrow> Value x = NA \<and> Revenue_Source x = NA)"
proof -
  from assms(1) obtain df' y where s: "slice_to_last show_num (strip_columns df0) = Inr df'"
    and y: "extract_year file_name = Inr y"
    and d: "distinct (map index_key (map (with_date y) (melt (clean_values df'))))"
    and o: "out = map (\<lambda>cm. actual_row parse (value_dtype df0) y
                 (reindex_row (map (with_date y) (melt (clean_values df'))) cm))
             (List.product (unique (map id_code (melt (clean_values df')))) month_order)"
    by (rule actual_transform_Inr)
  from s assms(2) have [simp]: "df' = df" by simp
  let ?M = "melt (clean_values df)"
  let ?D = "map (with_date y) ?M"
  let ?U = "unique (map id_code ?M)"
  let ?P = "List.product ?U month_order"
  let ?f = "\<lambda>cm. actual_row parse (value_dtype df0) y (reindex_row ?D cm)"
  from o have out: "out = map ?f ?P" by simp
  have keys: "map (\<lambda>x. (Revenue_Code x, Month x)) out = ?P"
    unfolding out by (simp add: o_def actual_row_fields)
  have 1: "distinct (map (\<lambda>x. (Revenue_Code x, Month x)) out)"
    unfolding keys using month_order_distinct by (simp add: distinct_product unique_distinct)
  have codes: "Revenue_Code ` set out = set ?U"
  proof -
    have "Revenue_Code ` set out = fst ` set ?P"
      unfolding out by (simp add: image_image actual_row_fields)
    also have "\<dots> = set ?U" using month_order_distinct by (auto simp add: image_iff)
    finally show ?thesis .
  qed
  have 2: "\<forall>c\<in>Revenue_Code ` set out.
          map Month (filter (\<lambda>x. Revenue_Code x = c) out) = month_order"
  proof
    fix c assume "c \<in> Revenue_Code ` set out"
    with codes have c: "c \<in> set ?U" by simp
    have "filter (\<lambda>x. Revenue_Code x = c) out = map ?f (filter (\<lambda>cm. fst cm = c) ?P)"
      unfolding out by (simp add: filter_map o_def actual_row_fields)
    also have "\<dots> = map ?f (map (Pair c) month_order)"
      by (simp only: filter_product [OF unique_distinct c])
    finally show "map Month (filter (\<lambda>x. Revenue_Code x = c) out) = month_order"
      by (simp add: o_def actual_row_fields)
  qed
  have 3: "month_cols df0 \<noteq> [] \<longrightarrow> Revenue_Code ` set out = code ` set (rows (clean_values df))"
  proof
    assume "month_cols df0 \<noteq> []"
    then have "month_cols (clean_values df) \<noteq> []"
      using slice_months [OF assms(2)] by (simp add: clean_values_months strip_columns_def)
    from melt_codes [OF this] codes
    show "Revenue_Code ` set out = code ` set (rows (clean_values df))"
      by (simp add: unique_set)
  qed
  have 4: "\<forall>x\<in>set out.
          (\<forall>m\<in>set ?M. (id_code m, first_word (var_month m)) \<noteq> (Revenue_Code x, Some (Month x)))
          \<longrightarrow> Value x = NA \<and> Revenue_Source x = NA"
    using actual_absent [OF assms] by blast
  from 1 2 3 4 show ?thesis by blast
qed

text \<open>
  The twelve months of code \<^verbatim>\<open>1000.01.01\<close> in the sample sheet.
\<close>

theorem twelve_months_per_code_witness:
  "map Month (filter (\<lambda>x. Revenue_Code x = Str ''1000.01.01'')
      (case actual_transform str_int sample_parse ''2021 Report.xlsx''
              (sheet month_order [total_row, sales_row]) of Inl e \<Rightarrow> [] | Inr out \<Rightarrow> out))
     = month_order"
proof -
  from sample_actual obtain out where
    o: "actual_transform str_int sample_parse ''2021 Report.xlsx''
           (sheet month_order [total_row, sales_row]) = Inr out" by blast
  have ne: "month_cols (sheet month_order [total_row, sales_row]) \<noteq> []"
    by (simp add: sheet_def month_order_def)
  from twelve_months_per_code [OF o sample_slice] ne
  have c: "Revenue_Code ` set out
             = code ` set (rows (clean_values (sheet month_order [total_row, sales_row])))"
    and m: "\<forall>c\<in>Revenue_Code ` set out.
          map Month (filter (\<lambda>x. Revenue_Code x = c) out) = month_order"
    by blast+
  from c have "Str ''1000.01.01'' \<in> Revenue_Code ` set out" by (simp add: sample_rows)
  with m have "map Month (filter (\<lambda>x. Revenue_Code x = Str ''1000.01.01'') out) = month_order"
    by blast
  with o show ?thesis by simp
qed

text \<open>
  Claim C1 as it is worded fails for \<^verbatim>\<open>Estimate_Revenue.py\<close>: it emits one record for
  each row and month column, so a code that stands in two rows of a sheet with twelve
  month columns gets 24 records, with every pair of code and month twice.
\<close>

theorem estimate_not_completed:
  "(case estimate_transform str_int sample_parse ''2021 Report.xlsx''
            (sheet month_order [sales_row, sales_row])
    of Inl e \<Rightarrow> 0
     | Inr out \<Rightarrow> length (filter (\<lambda>x. Revenue_Code x = Str ''1000.01.01'') out)) = 24"
  by code_simp

text \<open>
  Claim C2 as it is worded fails for \<^verbatim>\<open>Actual_Revenue.py\<close>: a \<^verbatim>\<open>TOTAL\<close> row above
  the last revenue row is kept by the slice and emitted, with a code that does not match
  the pattern.
\<close>

theorem unmatched_row_emitted:
  "(case actual_transform str_int sample_parse ''2021 Report.xlsx''
           (sheet month_order [total_row, sales_row])
    of Inl e \<Rightarrow> False
     | Inr out \<Rightarrow>
         \<lparr>Year = 2021, Month = ''January'', Revenue_Code = Str ''TOTAL'',
          Revenue_Source = Str ''TOTAL'', Value = Num 400\<rparr> \<in> set out)
   \<and> \<not> is_code str_int (Str ''TOTAL'')"
proof -
  from sample_actual obtain out where
    o: "actual_transform str_int sample_parse ''2021 Report.xlsx''
           (sheet month_order [total_row, sales_row]) = Inr out" by blast
  let ?r = "\<lparr>code = Str ''TOTAL'', source = Str ''TOTAL'', vals = [Num (400::int), NA, Num 300]\<rparr>"
  have r: "?r \<in> set (rows (clean_values (sheet month_order [total_row, sales_row])))"
    by (simp add: sample_rows)
  have j: "0 < length (month_cols (sheet month_order [total_row, sales_row]))"
    by (simp add: sheet_def month_order_def)
  have f: "first_word (strip (month_cols (sheet month_order [total_row, sales_row]) ! 0))
             = Some ''January''"
    by code_simp
  have mo: "''January'' \<in> set month_order" by (simp add: month_order_def)
  have c: "float64_of_int (float64_of_int 400) = 400" by code_simp
  from actual_carries [OF o sample_slice sample_year r j f mo]
  have "\<lparr>Year = 2021, Month = ''January'', Revenue_Code = Str ''TOTAL'',
          Revenue_Source = Str ''TOTAL'', Value = Num 400\<rparr> \<in> set out"
    by (simp add: cell_at_def sheet_def c)
  moreover have "\<not> is_code str_int (Str ''TOTAL'')" by code_simp
  ultimately show ?thesis using o by simp
qed













text \<open>
  Claim C10. When the frame of \<^verbatim>\<open>Actual_Revenue.py\<close> passes the slice and the year
  extraction, and two of its melted rows have the same index entry (code and month),
  the reindexing raises and the script ends without a table.
\<close>

theorem duplicate_pair_raises:
  assumes "slice_to_last show_num (strip_columns df0) = Inr df"
    and "extract_year file_name = Inr y"
    and "a < b" and "b < length (melt (clean_values df))"
    and "index_key (with_date y (melt (clean_values df) ! a))
           = index_key (with_date y (melt (clean_values df) ! b))"
  shows "actual_transform show_num parse file_name df0 = Inl NonUniqueIndex"
proof -
  let ?D = "map (with_date y) (melt (clean_values df))"
  have "\<not> distinct (map index_key ?D)"
  proof
    assume "distinct (map index_key ?D)"
    moreover have "a < length (map index_key ?D)" "b < length (map index_key ?D)" "a \<noteq> b"
      using assms(3,4) by simp_all
    ultimately have "map index_key ?D ! a \<noteq> map index_key ?D ! b"
      by (simp only: nth_eq_iff_index_eq not_False_eq_True)
    with assms(3,4,5) show False by simp
  qed
  with assms(1,2) show ?thesis
    by (simp add: actual_transform_def Let_def reindex_def)
qed

text \<open>
  A sheet with the same code in two rows.
\<close>

theorem duplicate_pair_raises_witness:
  "actual_transform str_int sample_parse ''2021 Report.xlsx''
      (sheet month_order [sales_row, sales_row]) = Inl NonUniqueIndex"
proof (rule duplicate_pair_raises [where a = 0 and b = 1 and y = 2021])
  show "slice_to_last str_int (strip_columns (sheet month_order [sales_row, sales_row]))
          = Inr (sheet month_order [sales_row, sales_row])"
    unfolding sample_strip
  proof (rule slice_to_last_whole)
    show "rows (sheet month_order [sales_row, sales_row]) \<noteq> []" by (simp add: sheet_def)
    show "is_code str_int (code (last (rows (sheet month_order [sales_row, sales_row]))))"
      by code_simp
  qed
  show "extract_year ''2021 Report.xlsx'' = Inr 2021" by (rule sample_year)
  show "(0::nat) < 1" by simp
  show "1 < length (melt (clean_values (sheet month_order [sales_row, sales_row])))"
    by (simp add: length_melt clean_values_months clean_values_rows sheet_def month_order_def)
  show "index_key (with_date 2021 (melt (clean_values (sheet month_order [sales_row, sales_row])) ! 0))
      = index_key (with_date 2021 (melt (clean_values (sheet month_order [sales_row, sales_row])) ! 1))"
    by code_simp
qed

section \<open>The year of a file\<close>

lemma match_four:
  "match_atoms [Digit, Digit, Digit, Digit] s = Some r \<longleftrightarrow> four_digits_at s 0 \<and> r = drop 4 s"
proof
  assume m: "match_atoms [Digit, Digit, Digit, Digit] s = Some r"
  from match_atoms_Some [OF m] obtain p where s: "s = p @ r"
    and ok: "list_all2 atom_ok [Digit, Digit, Digit, Digit] p" by blast
  from ok have l: "length p = 4" by (simp add: list_all2_lengthD [symmetric])
  from ok have "list_all is_digit p"
    by (auto simp add: list_all_iff list_all2_conv_all_nth in_set_conv_nth l less_Suc_eq numeral_Bit0 numeral_eq_Suc)
  with s l show "four_digits_at s 0 \<and> r = drop 4 s"
    by (simp add: four_digits_at_def)
next
  assume a: "four_digits_at s 0 \<and> r = drop 4 s"
  let ?p = "take 4 s"
  from a have l: "length ?p = 4" and d: "list_all is_digit ?p"
    by (simp_all add: four_digits_at_def)
  have "list_all2 atom_ok [Digit, Digit, Digit, Digit] ?p"
    unfolding list_all2_conv_all_nth
  proof (intro conjI allI impI)
    show "length [Digit, Digit, Digit, Digit] = length ?p" using l by simp
  next
    fix i assume "i < length [Digit, Digit, Digit, Digit]"
    then have i: "i < length ?p" using l by simp
    then have "is_digit (?p ! i)" using d by (simp add: list_all_length)
    moreover have "[Digit, Digit, Digit, Digit] ! i = Digit"
      using i l by (auto simp add: nth_Cons' )
    ultimately show "atom_ok ([Digit, Digit, Digit, Digit] ! i) (?p ! i)" by simp
  qed
  from match_atoms_append [OF this, of "drop 4 s"] a
  show "match_atoms [Digit, Digit, Digit, Digit] s = Some r" by simp
qed

lemma four_digits_at_Suc: "four_digits_at (c # cs) (Suc i) = four_digits_at cs i"
  by (simp add: four_digits_at_def add.commute)

lemma search_year_Some:
  "search_year s = Some g \<longleftrightarrow>
     (\<exists>i. four_digits_at s i \<and> (\<forall>j<i. \<not> four_digits_at s j) \<and> g = take 4 (drop i s))"
proof (induction s)
  case Nil
  show ?case by (simp add: four_digits_at_def)
next
  case (Cons c cs)
  show ?case
  proof (cases "four_digits_at (c # cs) 0")
    case True
    then have m: "match_atoms [Digit, Digit, Digit, Digit] (c # cs) = Some (drop 4 (c # cs))"
      by (simp only: match_four)
    have "search_year (c # cs) = Some (take 4 (c # cs))"
      by (simp only: search_year.simps m option.case)
    moreover have "(\<exists>i. four_digits_at (c # cs) i \<and> (\<forall>j<i. \<not> four_digits_at (c # cs) j)
            \<and> g = take 4 (drop i (c # cs))) \<longleftrightarrow> g = take 4 (c # cs)"
    proof
      assume "\<exists>i. four_digits_at (c # cs) i \<and> (\<forall>j<i. \<not> four_digits_at (c # cs) j)
            \<and> g = take 4 (drop i (c # cs))"
      then obtain i where i: "\<forall>j<i. \<not> four_digits_at (c # cs) j" "g = take 4 (drop i (c # cs))"
        by blast
      with True have "i = 0" by (cases i) auto
      with i show "g = take 4 (c # cs)" by simp
    next
      assume "g = take 4 (c # cs)"
      with True show "\<exists>i. four_digits_at (c # cs) i \<and> (\<forall>j<i. \<not> four_digits_at (c # cs) j)
            \<and> g = take 4 (drop i (c # cs))"
        by (intro exI [of _ 0]) simp
    qed
    ultimately show ?thesis by auto
  next
    case False
    then have m: "match_atoms [Digit, Digit, Digit, Digit] (c # cs) = None"
      using match_four [of "c # cs"] by (cases "match_atoms [Digit, Digit, Digit, Digit] (c # cs)") auto
    have s: "search_year (c # cs) = search_year cs"
      by (simp only: search_year.simps m option.case)
    have "(\<exists>i. four_digits_at (c # cs) i \<and> (\<forall>j<i. \<not> four_digits_at (c # cs) j)
            \<and> g = take 4 (drop i (c # cs)))
        \<longleftrightarrow> (\<exists>i. four_digits_at cs i \<and> (\<forall>j<i. \<not> four_digits_at cs j) \<and> g = take 4 (drop i cs))"
    proof
      assume "\<exists>i. four_digits_at (c # cs) i \<and> (\<forall>j<i. \<not> four_digits_at (c # cs) j)
            \<and> g = take 4 (drop i (c # cs))"
      then obtain i where i: "four_digits_at (c # cs) i" "\<forall>j<i. \<not> four_digits_at (c # cs) j"
        "g = take 4 (drop i (c # cs))" by blast
      with False obtain k where k: "i = Suc k" by (cases i) auto
      from i(2) k have "\<forall>j<k. \<not> four_digits_at cs j"
        using four_digits_at_Suc [of c cs] by (metis Suc_less_eq)
      with i k show "\<exists>i. four_digits_at cs i \<and> (\<forall>j<i. \<not> four_digits_at cs j)
            \<and> g = take 4 (drop i cs)"
        by (intro exI [of _ k]) (simp add: four_digits_at_Suc)
    next
      assume "\<exists>i. four_digits_at cs i \<and> (\<forall>j<i. \<not> four_digits_at cs j) \<and> g = take 4 (drop i cs)"
      then obtain k where k: "four_digits_at cs k" "\<forall>j<k. \<not> four_digits_at cs j"
        "g = take 4 (drop k cs)" by blast
      have "\<forall>j<Suc k. \<not> four_digits_at (c # cs) j"
      proof (intro allI impI)
        fix j assume "j < Suc k"
        with False k(2) show "\<not> four_digits_at (c # cs) j"
          by (cases j) (simp_all add: four_digits_at_Suc)
      qed
      with k show "\<exists>i. four_digits_at (c # cs) i \<and> (\<forall>j<i. \<not> four_digits_at (c # cs) j)
            \<and> g = take 4 (drop i (c # cs))"
        by (intro exI [of _ "Suc k"]) (simp add: four_digits_at_Suc)
    qed
    with s Cons.IH show ?thesis by simp
  qed
qed

lemma search_year_None: "search_year s = None \<longleftrightarrow> (\<forall>i. \<not> four_digits_at s i)"
proof
  assume n: "search_year s = None"
  show "\<forall>i. \<not> four_digits_at s i"
  proof (rule ccontr)
    assume "\<not> (\<forall>i. \<not> four_digits_at s i)"
    then have ex: "\<exists>i. four_digits_at s i" by blast
    define i where "i = (LEAST i. four_digits_at s i)"
    from ex have "four_digits_at s i" unfolding i_def by (metis LeastI)
    moreover have "\<forall>j<i. \<not> four_digits_at s j" unfolding i_def using not_less_Least by blast
    ultimately have "search_year s = Some (take 4 (drop i s))"
      unfolding search_year_Some by blast
    with n show False by simp
  qed
next
  assume "\<forall>i. \<not> four_digits_at s i"
  then have "\<And>g. search_year s \<noteq> Some g" unfolding search_year_Some by blast
  then show "search_year s = None" by (cases "search_year s") auto
qed

lemma estimate_years:
  assumes "estimate_transform show_num parse file_name df0 = Inr out" "x \<in> set out"
  shows "extract_year file_name = Inr (Year x)"
proof -
  from assms(1) obtain y where "extract_year file_name = Inr y"
    "out = map (estimate_row parse (value_dtype df0) y)
             (melt (clean_values (filter_valid show_num (strip_columns df0))))"
    by (rule estimate_Inr)
  with assms(2) show ?thesis by (auto simp add: estimate_row_def)
qed

lemma actual_years:
  assumes "actual_transform show_num parse file_name df0 = Inr out" "x \<in> set out"
  shows "extract_year file_name = Inr (Year x)"
proof -
  from assms(1) obtain df y where "extract_year file_name = Inr y"
    "out = map (\<lambda>cm. actual_row parse (value_dtype df0) y (reindex_row (map (with_date y) (melt (clean_values df))) cm))
             (List.product (unique (map id_code (melt (clean_values df)))) month_order)"
    by (rule actual_transform_Inr)
  with assms(2) show ?thesis by (auto simp add: actual_row_fields)
qed

text \<open>
  Claim C4, as the code has it. The extraction fails, with the \<^verbatim>\<open>ValueError\<close> of the
  script, exactly when the file name has no four consecutive digits; otherwise the year
  is the number written by the leftmost four consecutive digits of the name, whatever
  follows them. Every record of a table produced from the file carries that year.
\<close>

theorem year_is_first_four_digits:
  "(extract_year file_name = Inl e \<longleftrightarrow> e = YearNotFound \<and> (\<forall>i. \<not> four_digits_at file_name i))
   \<and> (extract_year file_name = Inr y \<longleftrightarrow>
        (\<exists>i. four_digits_at file_name i \<and> (\<forall>j<i. \<not> four_digits_at file_name j)
             \<and> y = int_of_digits (take 4 (drop i file_name))))
   \<and> (estimate_transform show_num parse file_name df0 = Inr out \<longrightarrow>
        (\<forall>x\<in>set out. extract_year file_name = Inr (Year x)))
   \<and> (actual_transform show_num parse file_name df0 = Inr out' \<longrightarrow>
        (\<forall>x\<in>set out'. extract_year file_name = Inr (Year x)))"
proof (intro conjI)
  show "extract_year file_name = Inl e \<longleftrightarrow> e = YearNotFound \<and> (\<forall>i. \<not> four_digits_at file_name i)"
    using search_year_None [of file_name]
    by (auto simp add: extract_year_def split: option.splits)
next
  show "extract_year file_name = Inr y \<longleftrightarrow>
        (\<exists>i. four_digits_at file_name i \<and> (\<forall>j<i. \<not> four_digits_at file_name j)
             \<and> y = int_of_digits (take 4 (drop i file_name)))"
  proof
    assume "extract_year file_name = Inr y"
    then obtain g where g: "search_year file_name = Some g" "y = int_of_digits g"
      by (auto simp add: extract_year_def split: option.splits)
    then show "\<exists>i. four_digits_at file_name i \<and> (\<forall>j<i. \<not> four_digits_at file_name j)
             \<and> y = int_of_digits (take 4 (drop i file_name))"
      unfolding search_year_Some by blast
  next
    assume "\<exists>i. four_digits_at file_name i \<and> (\<forall>j<i. \<not> four_digits_at file_name j)
             \<and> y = int_of_digits (take 4 (drop i file_name))"
    then obtain i where i: "four_digits_at file_name i" "\<forall>j<i. \<not> four_digits_at file_name j"
      "y = int_of_digits (take 4 (drop i file_name))" by blast
    then have "search_year file_name = Some (take 4 (drop i file_name))"
      unfolding search_year_Some by blast
    with i(3) show "extract_year file_name = Inr y" by (simp add: extract_year_def)
  qed
next
  show "estimate_transform show_num parse file_name df0 = Inr out \<longrightarrow>
        (\<forall>x\<in>set out. extract_year file_name = Inr (Year x))"
    using estimate_years by blast
next
  show "actual_transform show_num parse file_name df0 = Inr out' \<longrightarrow>
        (\<forall>x\<in>set out'. extract_year file_name = Inr (Year x))"
    using actual_years by blast
qed

text \<open>
  The year of \<^verbatim>\<open>Actual 2020 v2.xlsx\<close>: the four digits at position 7.
\<close>

theorem year_is_first_four_digits_witness:
  "extract_year ''Actual 2020 v2.xlsx'' = Inr 2020"
proof -
  have a: "four_digits_at ''Actual 2020 v2.xlsx'' 7" by code_simp
  have b: "\<forall>j<7. \<not> four_digits_at ''Actual 2020 v2.xlsx'' j"
  proof (intro allI impI)
    fix j :: nat assume "j < 7"
    then have "j \<in> {0, 1, 2, 3, 4, 5, 6}" by auto
    then show "\<not> four_digits_at ''Actual 2020 v2.xlsx'' j"
      by (auto simp add: four_digits_at_def is_digit_def)
  qed
  have c: "(2020::int) = int_of_digits (take 4 (drop 7 ''Actual 2020 v2.xlsx''))" by code_simp
  from year_is_first_four_digits [of "''Actual 2020 v2.xlsx''" YearNotFound 2020
      "\<lambda>n::int. []" "\<lambda>s. None" "sheet [] []" "[]" "[]"] a b c
  show ?thesis by blast
qed

text \<open>
  Claim C4 as it is worded fails: in \<^verbatim>\<open>12345 2020.xlsx\<close> the first maximal run of
  exactly four digits is \<^verbatim>\<open>2020\<close> and the scripts take 1234; \<^verbatim>\<open>Report 20210.xlsx\<close>
  has no such run and the scripts take 2021 instead of failing.
\<close>

theorem year_is_not_a_maximal_run:
  "extract_year ''12345 2020.xlsx'' = Inr 1234 \<and> spec_year ''12345 2020.xlsx'' = Some ''2020''
   \<and> extract_year ''Report 20210.xlsx'' = Inr 2021 \<and> spec_year ''Report 20210.xlsx'' = None"
  by code_simp

section \<open>The loop over the files\<close>







lemma process_file_loaded:
  assumes "R f = Inr df0" and "estimate_transform sh p f df0 = Inr df_final"
    and "T (table st) df_final = None"
  shows "process_file R T sh p st f
           = st\<lparr>table := table st @ df_final,
                printed := printed st @ [Processing f, Loaded (length df_final) f]\<rparr>"
  using assms by (simp add: process_file_def try_file_def)



end
